theory Spec2Isabelle
  imports Complex_Main "HOL-Library.Word" "HOL-Library.Log_Nat"
begin

unbundle bit_operations_syntax

section \<open>JavaScript values that reach the emulator\<close>

text \<open>
  The sources hold four versions of the class \<open>CPU\<close> of the LS-8 emulator; the
  one embedded here is the fullest, with flags, jumps, the stack and subroutine
  calls. It keeps every register, the program counter and every memory cell as
  a JavaScript value. The values that can occur are numbers and \<open>undefined\<close> (a
  read of an array slot that was never written). A number is an IEEE 754
  binary64: \<open>Num q\<close> is the finite number with the rational value \<open>q\<close>, where
  \<open>Num 0\<close> is the positive zero; the negative zero, the two infinities and NaN
  are values of their own. A quotient, and a product that is no integer, is
  rounded to the nearest binary64 as the operators \<open>/\<close> and \<open>*\<close> do. Sums,
  differences and integer products are computed exactly: they are the results
  of the JavaScript operators as long as these are exact, which they are on
  integers of magnitude below \<open>2 ^ 53\<close>.
\<close>

datatype jsval = Undefined | NaN | PInf | NInf | NegZero | Num rat

text \<open>
  The key under which a value indexes an array or an object is its string, and
  both zeros have the string \<open>0\<close>.
\<close>

definition key :: "jsval \<Rightarrow> jsval" where
  "key v = (if v = NegZero then Num 0 else v)"

text \<open>The assignment \<open>obj[k] = v\<close> on an object read as a function of the index.\<close>

definition store :: "(jsval \<Rightarrow> 'a) \<Rightarrow> jsval \<Rightarrow> 'a \<Rightarrow> jsval \<Rightarrow> 'a" where
  "store f k v = (\<lambda>x. if key x = key k then v else f x)"

text \<open>Truncation towards zero, the first step of the conversion \<open>ToInt32\<close>.\<close>

definition trunc :: "rat \<Rightarrow> int" where
  "trunc q = (if q < 0 then \<lceil>q\<rceil> else \<lfloor>q\<rfloor>)"

text \<open>
  \<open>ToInt32\<close>: every operand of a bitwise operator is converted to a signed 32-bit
  integer; NaN, the zeros, the infinities and \<open>undefined\<close> become 0.
\<close>

fun toInt32 :: "jsval \<Rightarrow> int" where
  "toInt32 (Num q) = signed_take_bit 31 (trunc q)"
| "toInt32 _ = 0"

text \<open>The sign of a number.\<close>

definition sign_bit :: "jsval \<Rightarrow> bool" where
  "sign_bit v = (case v of NegZero \<Rightarrow> True | NInf \<Rightarrow> True | Num q \<Rightarrow> q < 0 | _ \<Rightarrow> False)"

text \<open>An infinity and a zero of the given sign.\<close>

definition signed_inf :: "bool \<Rightarrow> jsval" where
  "signed_inf positive = (if positive then PInf else NInf)"

definition signed_zero :: "bool \<Rightarrow> jsval" where
  "signed_zero positive = (if positive then Num 0 else NegZero)"

subsection \<open>Rounding to binary64\<close>

text \<open>Powers of two with an integer exponent.\<close>

definition pow2 :: "int \<Rightarrow> rat" where
  "pow2 e = (if 0 \<le> e then 2 ^ nat e else 1 / 2 ^ nat (- e))"

text \<open>The exponent \<open>e\<close> of a positive rational: \<open>2 ^ e \<le> q < 2 ^ (e + 1)\<close>.\<close>

definition floor_log2 :: "rat \<Rightarrow> int" where
  "floor_log2 q = (if 1 \<le> q then bitlen \<lfloor>q\<rfloor> - 1 else - bitlen (\<lceil>1 / q\<rceil> - 1))"

text \<open>Rounding to the nearest integer, a tie to the even one.\<close>

definition round_half_even :: "rat \<Rightarrow> int" where
  "round_half_even x =
     (let n = \<lfloor>x\<rfloor>; d = x - of_int n
      in if d < 1 / 2 then n else if 1 / 2 < d then n + 1 else if even n then n else n + 1)"

text \<open>
  The unit in the last place of a positive magnitude: 53 significant bits, and
  the least exponent \<open>- 1022\<close>, below which the numbers are subnormal.
\<close>

definition ulp :: "rat \<Rightarrow> rat" where
  "ulp m = pow2 (max (floor_log2 m) (- 1022) - 52)"

text \<open>
  The binary64 of a sign and a magnitude \<open>m \<ge> 0\<close>: the multiple of the unit in
  the last place nearest to \<open>m\<close>, a tie to the even one; an infinity from
  \<open>2 ^ 1024\<close> on, a zero of the same sign when the magnitude rounds to nothing.
\<close>

definition binary64 :: "bool \<Rightarrow> rat \<Rightarrow> jsval" where
  "binary64 neg m =
     (if m = 0 then signed_zero (\<not> neg)
      else let r = of_int (round_half_even (m / ulp m)) * ulp m
           in if pow2 1024 \<le> r then signed_inf (\<not> neg)
              else if r = 0 then signed_zero (\<not> neg)
              else Num (if neg then - r else r))"

subsection \<open>Operators\<close>

text \<open>
  The operator \<open>+\<close> on numbers; \<open>undefined\<close> converts to NaN. The sum of two
  negative zeros is the negative zero, every other zero sum is positive.
\<close>

fun js_add :: "jsval \<Rightarrow> jsval \<Rightarrow> jsval" where
  "js_add (Num a) (Num b) = Num (a + b)"
| "js_add NegZero NegZero = NegZero"
| "js_add NegZero (Num b) = Num b"
| "js_add (Num a) NegZero = Num a"
| "js_add PInf NInf = NaN"
| "js_add NInf PInf = NaN"
| "js_add PInf PInf = PInf"
| "js_add PInf (Num b) = PInf"
| "js_add PInf NegZero = PInf"
| "js_add (Num a) PInf = PInf"
| "js_add NegZero PInf = PInf"
| "js_add NInf NInf = NInf"
| "js_add NInf (Num b) = NInf"
| "js_add NInf NegZero = NInf"
| "js_add (Num a) NInf = NInf"
| "js_add NegZero NInf = NInf"
| "js_add _ _ = NaN"

text \<open>The operator \<open>-\<close>; only \<open>-0 - 0\<close> is the negative zero.\<close>

fun js_sub :: "jsval \<Rightarrow> jsval \<Rightarrow> jsval" where
  "js_sub (Num a) (Num b) = Num (a - b)"
| "js_sub NegZero NegZero = Num 0"
| "js_sub NegZero (Num b) = (if b = 0 then NegZero else Num (- b))"
| "js_sub (Num a) NegZero = Num a"
| "js_sub PInf PInf = NaN"
| "js_sub NInf NInf = NaN"
| "js_sub PInf NInf = PInf"
| "js_sub PInf (Num b) = PInf"
| "js_sub PInf NegZero = PInf"
| "js_sub (Num a) NInf = PInf"
| "js_sub NegZero NInf = PInf"
| "js_sub NInf PInf = NInf"
| "js_sub NInf (Num b) = NInf"
| "js_sub NInf NegZero = NInf"
| "js_sub (Num a) PInf = NInf"
| "js_sub NegZero PInf = NInf"
| "js_sub _ _ = NaN"

text \<open>
  The operator \<open>*\<close>; an infinity times a zero is NaN, and a zero product has
  the product of the signs. A product that is no integer is rounded to binary64
  as a quotient is; an integer product is kept as it is.
\<close>

definition rounded :: "rat \<Rightarrow> jsval" where
  "rounded x = (if x = of_int \<lfloor>x\<rfloor> then Num x else binary64 (x < 0) \<bar>x\<bar>)"

fun js_mul :: "jsval \<Rightarrow> jsval \<Rightarrow> jsval" where
  "js_mul (Num a) (Num b) =
     (if a * b = 0 then signed_zero ((a < 0) = (b < 0)) else rounded (a * b))"
| "js_mul NegZero NegZero = Num 0"
| "js_mul NegZero (Num b) = signed_zero (b < 0)"
| "js_mul (Num a) NegZero = signed_zero (a < 0)"
| "js_mul PInf (Num b) = (if b = 0 then NaN else signed_inf (0 < b))"
| "js_mul NInf (Num b) = (if b = 0 then NaN else signed_inf (b < 0))"
| "js_mul (Num a) PInf = (if a = 0 then NaN else signed_inf (0 < a))"
| "js_mul (Num a) NInf = (if a = 0 then NaN else signed_inf (a < 0))"
| "js_mul PInf PInf = PInf"
| "js_mul NInf NInf = PInf"
| "js_mul PInf NInf = NInf"
| "js_mul NInf PInf = NInf"
| "js_mul _ _ = NaN"

text \<open>
  The operator \<open>/\<close>. Division by zero does not raise: a nonzero number divided by
  a zero is an infinity, and a zero divided by a zero is NaN. The quotient of two
  finite numbers is rounded to binary64; its sign is the product of the signs.
\<close>

fun js_div :: "jsval \<Rightarrow> jsval \<Rightarrow> jsval" where
  "js_div (Num a) (Num b) =
     (if b = 0 then (if a = 0 then NaN else signed_inf (0 < a))
      else binary64 ((a < 0) \<noteq> (b < 0)) \<bar>a / b\<bar>)"
| "js_div NegZero NegZero = NaN"
| "js_div NegZero (Num b) = (if b = 0 then NaN else signed_zero (b < 0))"
| "js_div (Num a) NegZero = (if a = 0 then NaN else signed_inf (a < 0))"
| "js_div (Num a) PInf = signed_zero (0 \<le> a)"
| "js_div (Num a) NInf = signed_zero (a < 0)"
| "js_div NegZero PInf = NegZero"
| "js_div NegZero NInf = Num 0"
| "js_div PInf (Num b) = signed_inf (0 \<le> b)"
| "js_div NInf (Num b) = signed_inf (b < 0)"
| "js_div PInf NegZero = NInf"
| "js_div NInf NegZero = PInf"
| "js_div _ _ = NaN"

text \<open>
  The operator \<open>%\<close>: the remainder of the division truncated towards zero, exact,
  with the sign of the dividend also when it is zero; NaN when the divisor is a
  zero.
\<close>

fun js_mod :: "jsval \<Rightarrow> jsval \<Rightarrow> jsval" where
  "js_mod (Num a) (Num b) =
     (if b = 0 then NaN
      else if a - b * of_int (trunc (a / b)) = 0 then signed_zero (0 \<le> a)
      else Num (a - b * of_int (trunc (a / b))))"
| "js_mod NegZero (Num b) = (if b = 0 then NaN else NegZero)"
| "js_mod (Num a) PInf = Num a"
| "js_mod (Num a) NInf = Num a"
| "js_mod NegZero PInf = NegZero"
| "js_mod NegZero NInf = NegZero"
| "js_mod _ _ = NaN"

text \<open>The bitwise operators \<open>&\<close>, \<open>|\<close>, \<open>^\<close> and \<open>~\<close>.\<close>

definition js_bitand :: "jsval \<Rightarrow> jsval \<Rightarrow> jsval" where
  "js_bitand a b = Num (of_int (toInt32 a AND toInt32 b))"

definition js_bitor :: "jsval \<Rightarrow> jsval \<Rightarrow> jsval" where
  "js_bitor a b = Num (of_int (toInt32 a OR toInt32 b))"

definition js_bitxor :: "jsval \<Rightarrow> jsval \<Rightarrow> jsval" where
  "js_bitxor a b = Num (of_int (toInt32 a XOR toInt32 b))"

definition js_bitnot :: "jsval \<Rightarrow> jsval" where
  "js_bitnot a = Num (of_int (NOT (toInt32 a)))"

text \<open>
  The shifts \<open><<\<close> and \<open>>>\<close> (sign-propagating); the shift count is taken
  modulo 32.
\<close>

definition js_shl :: "jsval \<Rightarrow> jsval \<Rightarrow> jsval" where
  "js_shl a b = Num (of_int (signed_take_bit 31 (push_bit (nat (toInt32 b mod 32)) (toInt32 a))))"

definition js_shr :: "jsval \<Rightarrow> jsval \<Rightarrow> jsval" where
  "js_shr a b = Num (of_int (drop_bit (nat (toInt32 b mod 32)) (toInt32 a)))"

text \<open>
  Strict equality \<open>===\<close>: NaN is equal to nothing, \<open>undefined\<close> only to itself,
  and the two zeros are equal.
\<close>

definition js_strict_eq :: "jsval \<Rightarrow> jsval \<Rightarrow> bool" where
  "js_strict_eq a b = (key a = key b \<and> a \<noteq> NaN)"

text \<open>
  The relational operators \<open><\<close> and \<open>>\<close>: false as soon as an operand is NaN or
  \<open>undefined\<close>; the negative zero compares as zero.
\<close>

fun js_lt :: "jsval \<Rightarrow> jsval \<Rightarrow> bool" where
  "js_lt (Num a) (Num b) = (a < b)"
| "js_lt NegZero (Num b) = (0 < b)"
| "js_lt (Num a) NegZero = (a < 0)"
| "js_lt NInf (Num b) = True"
| "js_lt NInf NegZero = True"
| "js_lt NInf PInf = True"
| "js_lt (Num a) PInf = True"
| "js_lt NegZero PInf = True"
| "js_lt _ _ = False"

definition js_gt :: "jsval \<Rightarrow> jsval \<Rightarrow> bool" where
  "js_gt a b = js_lt b a"

text \<open>\<open>ToBoolean\<close>, as applied by \<open>if (...)\<close> to a number or \<open>undefined\<close>.\<close>

definition js_truthy :: "jsval \<Rightarrow> bool" where
  "js_truthy v = (v \<noteq> Undefined \<and> v \<noteq> NaN \<and> v \<noteq> Num 0 \<and> v \<noteq> NegZero)"

section \<open>The emulator state\<close>

text \<open>Indices of the reserved registers.\<close>

definition IM :: jsval where "IM = Num 5"
definition IS :: jsval where "IS = Num 6"
definition SP :: jsval where "SP = Num 7"

text \<open>
  Opcodes (the source writes them in binary). The source gives an opcode and
  its handler the same name; here the opcode carries the prefix \<open>op_\<close>.
\<close>

definition op_HLT :: jsval where "op_HLT = Num 1"
definition op_LD :: jsval where "op_LD = Num 152"
definition op_LDI :: jsval where "op_LDI = Num 153"
definition op_PRN :: jsval where "op_PRN = Num 67"
definition op_ST :: jsval where "op_ST = Num 154"
definition op_NOP :: jsval where "op_NOP = Num 0"
definition op_ADD :: jsval where "op_ADD = Num 168"
definition op_SUB :: jsval where "op_SUB = Num 169"
definition op_MUL :: jsval where "op_MUL = Num 170"
definition op_DIV :: jsval where "op_DIV = Num 171"
definition op_MOD :: jsval where "op_MOD = Num 172"
definition op_INC :: jsval where "op_INC = Num 120"
definition op_DEC :: jsval where "op_DEC = Num 121"
definition op_AND :: jsval where "op_AND = Num 179"
definition op_OR :: jsval where "op_OR = Num 177"
definition op_XOR :: jsval where "op_XOR = Num 178"
definition op_NOT :: jsval where "op_NOT = Num 112"
definition op_PUSH :: jsval where "op_PUSH = Num 77"
definition op_POP :: jsval where "op_POP = Num 76"
definition op_CALL :: jsval where "op_CALL = Num 72"
definition op_RET :: jsval where "op_RET = Num 9"
definition op_CMP :: jsval where "op_CMP = Num 160"
definition op_JMP :: jsval where "op_JMP = Num 80"
definition op_JEQ :: jsval where "op_JEQ = Num 81"
definition op_JGT :: jsval where "op_JGT = Num 84"
definition op_JLT :: jsval where "op_JLT = Num 83"
definition op_JNE :: jsval where "op_JNE = Num 82"

text \<open>Flag bits.\<close>

definition FL_EQ :: jsval where "FL_EQ = Num 0"
definition FL_GT :: jsval where "FL_GT = Num 1"
definition FL_LT :: jsval where "FL_LT = Num 2"

text \<open>
  What \<open>console.log\<close> receives: a register value (\<open>PRN\<close>), a fixed message, or
  the message \<open>Instruction <IR> is invalid\<close> for the given instruction register.
\<close>

datatype console_line = Value jsval | Message string | InvalidInstruction jsval

text \<open>
  The object \<open>this\<close>. The array \<open>this.reg\<close> is indexed by whatever value an operand
  holds, and a slot that was never written reads as \<open>undefined\<close>, so it is a total
  function from keys to values; \<open>PC\<close>, \<open>IR\<close> and \<open>FL\<close> are its named properties.
  The field \<open>clock\<close> is true while the interval timer of \<open>startClock\<close> is armed.
  The field \<open>console\<close> collects the lines written by \<open>console.log\<close>.
\<close>

record cpu =
  ram :: "jsval \<Rightarrow> jsval"
  reg :: "jsval \<Rightarrow> jsval"
  PC :: jsval
  IR :: jsval
  FL :: jsval
  clock :: bool
  console :: "console_line list"

text \<open>
  Modelled from the spec: the Memory collaborator behind \<open>this.ram\<close>, whose class
  is not part of the sources. It exposes \<open>read(address)\<close> and
  \<open>write(address, value)\<close>; a read returns the value last written to the
  address. The field \<open>ram\<close> is its content, \<open>read\<close> is application and \<open>write\<close>
  is an assignment at the index.
\<close>

definition ram_read :: "jsval \<Rightarrow> cpu \<Rightarrow> jsval" where
  "ram_read address s = ram s address"

definition ram_write :: "jsval \<Rightarrow> jsval \<Rightarrow> cpu \<Rightarrow> cpu" where
  "ram_write address v s = s\<lparr>ram := store (ram s) address v\<rparr>"

definition console_log :: "console_line \<Rightarrow> cpu \<Rightarrow> cpu" where
  "console_log l s = s\<lparr>console := console s @ [l]\<rparr>"

text \<open>
  The constructor: eight registers filled with 0, the stack pointer at 0xF4,
  program counter, instruction register and flags at 0. The timer is not armed
  yet.
\<close>

definition new_CPU :: "(jsval \<Rightarrow> jsval) \<Rightarrow> cpu" where
  "new_CPU memory =
     \<lparr>ram = memory,
      reg = fold (\<lambda>(k, v) f. store f k v)
              [(Num 0, Num 0), (Num 1, Num 0), (Num 2, Num 0), (Num 3, Num 0),
               (Num 4, Num 0), (Num 5, Num 0), (Num 6, Num 0), (Num 7, Num 0),
               (IM, Num 0), (IS, Num 0), (SP, Num 244)]
              (\<lambda>k. Undefined),
      PC = Num 0, IR = Num 0, FL = Num 0, clock = False, console = []\<rparr>"

definition poke :: "jsval \<Rightarrow> jsval \<Rightarrow> cpu \<Rightarrow> cpu" where
  "poke address v s = ram_write address v s"

definition startClock :: "cpu \<Rightarrow> cpu" where
  "startClock s = s\<lparr>clock := True\<rparr>"

definition stopClock :: "cpu \<Rightarrow> cpu" where
  "stopClock s = s\<lparr>clock := False\<rparr>"

definition halted :: "cpu \<Rightarrow> bool" where
  "halted s = (\<not> clock s)"

subsection \<open>Flags\<close>

definition setFlag :: "jsval \<Rightarrow> bool \<Rightarrow> cpu \<Rightarrow> cpu" where
  "setFlag flag v s =
     (if v then s\<lparr>FL := js_bitor (FL s) (js_shl (Num 1) flag)\<rparr>
      else s\<lparr>FL := js_bitand (FL s) (js_bitnot (js_shl (Num 1) flag))\<rparr>)"

definition getFlag :: "jsval \<Rightarrow> cpu \<Rightarrow> jsval" where
  "getFlag flag s = js_shr (js_bitand (FL s) (js_shl (Num 1) flag)) flag"

subsection \<open>The ALU\<close>

text \<open>The assignment \<open>this.reg[r] = v\<close>.\<close>

definition set_reg :: "jsval \<Rightarrow> jsval \<Rightarrow> cpu \<Rightarrow> cpu" where
  "set_reg r v s = s\<lparr>reg := store (reg s) r v\<rparr>"

text \<open>
  A \<open>switch\<close> on the name of the operation, with no default case: an unknown name
  changes nothing. \<open>CMP\<close> writes the three flags and no register.
\<close>

definition alu :: "string \<Rightarrow> jsval \<Rightarrow> jsval \<Rightarrow> cpu \<Rightarrow> cpu" where
  "alu opn regA regB s =
    (if opn = ''ADD'' then
       set_reg regA (js_bitand (js_add (reg s regA) (reg s regB)) (Num 255)) s
     else if opn = ''SUB'' then
       set_reg regA (js_bitand (js_sub (reg s regA) (reg s regB)) (Num 255)) s
     else if opn = ''MUL'' then
       set_reg regA (js_bitand (js_mul (reg s regA) (reg s regB)) (Num 255)) s
     else if opn = ''DIV'' then
       set_reg regA (js_div (reg s regA) (reg s regB)) s
     else if opn = ''MOD'' then
       set_reg regA (js_mod (reg s regA) (reg s regB)) s
     else if opn = ''INC'' then
       set_reg regA (js_bitand (js_add (reg s regA) (Num 1)) (Num 255)) s
     else if opn = ''DEC'' then
       set_reg regA (js_bitand (js_sub (reg s regA) (Num 1)) (Num 255)) s
     else if opn = ''AND'' then
       set_reg regA (js_bitand (reg s regA) (reg s regB)) s
     else if opn = ''OR'' then
       set_reg regA (js_bitor (reg s regA) (reg s regB)) s
     else if opn = ''XOR'' then
       set_reg regA (js_bitxor (reg s regA) (reg s regB)) s
     else if opn = ''NOT'' then
       set_reg regA (js_bitnot (reg s regA)) s
     else if opn = ''CMP'' then
       (let s1 = setFlag FL_EQ (js_strict_eq (reg s regA) (reg s regB)) s;
            s2 = setFlag FL_GT (js_gt (reg s1 regA) (reg s1 regB)) s1
        in setFlag FL_LT (js_lt (reg s2 regA) (reg s2 regB)) s2)
     else s)"

subsection \<open>Instruction handlers\<close>

text \<open>
  A handler receives the two operand bytes and returns what the JavaScript method
  returns: \<open>undefined\<close> when it ends without \<open>return\<close>, the jump target
  otherwise. The handlers of the bitwise instructions carry the suffix \<open>_h\<close>.
\<close>

type_synonym handler = "jsval \<Rightarrow> jsval \<Rightarrow> cpu \<Rightarrow> jsval \<times> cpu"

definition HLT :: handler where
  "HLT a b s = (Undefined, stopClock s)"

definition LD :: handler where
  "LD regA regB s = (Undefined, set_reg regA (ram_read (reg s regB) s) s)"

definition LDI :: handler where
  "LDI r v s = (Undefined, set_reg r v s)"

definition PRN :: handler where
  "PRN r b s = (Undefined, console_log (Value (reg s r)) s)"

definition ST :: handler where
  "ST regA regB s = (Undefined, ram_write (reg s regA) (reg s regB) s)"

definition NOP :: handler where
  "NOP a b s = (Undefined, s)"

definition ADD :: handler where
  "ADD regA regB s = (Undefined, alu ''ADD'' regA regB s)"

definition SUB :: handler where
  "SUB regA regB s = (Undefined, alu ''SUB'' regA regB s)"

definition MUL :: handler where
  "MUL regA regB s = (Undefined, alu ''MUL'' regA regB s)"

text \<open>
  \<open>DIV\<close> and \<open>MOD\<close> test the divisor, log and call \<open>HLT\<close>; the \<open>if\<close> has no
  \<open>return\<close>, so the call of the ALU that follows it runs in both cases.
\<close>

definition DIV :: handler where
  "DIV regA regB s =
     (let s1 = (if js_strict_eq (reg s regB) (Num 0)
                then snd (HLT Undefined Undefined
                            (console_log (Message ''regB should not be zero'') s))
                else s)
      in (Undefined, alu ''DIV'' regA regB s1))"

definition MOD :: handler where
  "MOD regA regB s =
     (let s1 = (if js_strict_eq (reg s regB) (Num 0)
                then snd (HLT Undefined Undefined
                            (console_log (Message ''regB should not be zero'') s))
                else s)
      in (Undefined, alu ''MOD'' regA regB s1))"

definition INC :: handler where
  "INC r b s = (Undefined, alu ''INC'' r Undefined s)"

definition DEC :: handler where
  "DEC r b s = (Undefined, alu ''DEC'' r Undefined s)"

definition AND_h :: handler where
  "AND_h regA regB s = (Undefined, alu ''AND'' regA regB s)"

definition OR_h :: handler where
  "OR_h regA regB s = (Undefined, alu ''OR'' regA regB s)"

definition XOR_h :: handler where
  "XOR_h regA regB s = (Undefined, alu ''XOR'' regA regB s)"

definition NOT_h :: handler where
  "NOT_h r b s = (Undefined, alu ''NOT'' r Undefined s)"

text \<open>The helpers \<open>_push\<close> and \<open>_pop\<close>.\<close>

definition push :: "jsval \<Rightarrow> cpu \<Rightarrow> cpu" where
  "push v s = (let s1 = alu ''DEC'' SP Undefined s in ram_write (reg s1 SP) v s1)"

definition PUSH :: handler where
  "PUSH r b s = (Undefined, push (reg s r) s)"

definition pop :: "cpu \<Rightarrow> jsval \<times> cpu" where
  "pop s = (let v = ram_read (reg s SP) s; s1 = alu ''INC'' SP Undefined s in (v, s1))"

definition POP :: handler where
  "POP r b s = (let (v, s1) = pop s in (Undefined, set_reg r v s1))"

definition CALL :: handler where
  "CALL r b s =
     (let s1 = push (js_add (PC s) (Num 2)) s; addr = reg s1 r in (addr, s1))"

definition RET :: handler where
  "RET a b s = (let (v, s1) = pop s in (v, s1))"

definition CMP :: handler where
  "CMP regA regB s = (Undefined, alu ''CMP'' regA regB s)"

definition JMP :: handler where
  "JMP r b s = (reg s r, s)"

definition JEQ :: handler where
  "JEQ r b s = (if js_truthy (getFlag FL_EQ s) then (reg s r, s) else (Undefined, s))"

definition JGT :: handler where
  "JGT r b s = (if js_truthy (getFlag FL_GT s) then (reg s r, s) else (Undefined, s))"

definition JLT :: handler where
  "JLT r b s = (if js_truthy (getFlag FL_LT s) then (reg s r, s) else (Undefined, s))"

definition JNE :: handler where
  "JNE r b s = (if \<not> js_truthy (getFlag FL_EQ s) then (reg s r, s) else (Undefined, s))"

subsection \<open>The branch table and the cycle\<close>

text \<open>
  \<open>setupBranchTable\<close> fills an empty object, one assignment per opcode. A lookup
  with a key that was never assigned gives \<open>undefined\<close>, here \<open>None\<close>.
\<close>

definition branchTable :: "jsval \<Rightarrow> handler option" where
  "branchTable =
     fold (\<lambda>(k, h) bt. store bt k (Some h))
       [(op_HLT, HLT),
        (op_LD, LD), (op_LDI, LDI), (op_PRN, PRN), (op_ST, ST), (op_NOP, NOP),
        (op_ADD, ADD), (op_SUB, SUB), (op_MUL, MUL), (op_DIV, DIV), (op_MOD, MOD),
        (op_INC, INC), (op_DEC, DEC),
        (op_AND, AND_h), (op_OR, OR_h), (op_XOR, XOR_h), (op_NOT, NOT_h),
        (op_PUSH, PUSH), (op_POP, POP),
        (op_CALL, CALL), (op_RET, RET),
        (op_CMP, CMP),
        (op_JMP, JMP), (op_JEQ, JEQ), (op_JGT, JGT), (op_JLT, JLT), (op_JNE, JNE)]
       (\<lambda>k. None)"

text \<open>The operand count that the default advance decodes from \<open>IR\<close>.\<close>

definition operandCount :: "jsval \<Rightarrow> jsval" where
  "operandCount ir = js_bitand (js_shr ir (Num 6)) (Num 3)"

text \<open>
  One cycle: fetch into \<open>IR\<close>, look the handler up, stop the clock and return
  when there is none; otherwise read both operand bytes, run the handler and
  set or advance \<open>PC\<close>.
\<close>

definition tick :: "cpu \<Rightarrow> cpu" where
  "tick s =
     (let s0 = s\<lparr>IR := ram_read (PC s) s\<rparr> in
      case branchTable (IR s0) of
        None \<Rightarrow> stopClock (console_log (InvalidInstruction (IR s0)) s0)
      | Some h \<Rightarrow>
          (let operandA = ram_read (js_add (PC s0) (Num 1)) s0;
               operandB = ram_read (js_add (PC s0) (Num 2)) s0;
               (newPC, s1) = h operandA operandB s0
           in if newPC \<noteq> Undefined then s1\<lparr>PC := newPC\<rparr>
              else s1\<lparr>PC := js_add (PC s1) (js_add (operandCount (IR s1)) (Num 1))\<rparr>))"

text \<open>
  The interval timer armed by \<open>startClock\<close> calls \<open>tick\<close> for as long as it has
  not been cleared; \<open>run n\<close> lets it fire at most \<open>n\<close> times.
\<close>

fun run :: "nat \<Rightarrow> cpu \<Rightarrow> cpu" where
  "run 0 s = s"
| "run (Suc n) s = (if clock s then run n (tick s) else s)"

section \<open>Programs\<close>

text \<open>
  Modelled from the spec: the memory of 256 bytes that the driver creates, all
  zero; an address outside 0..255 holds nothing.
\<close>

definition blank_memory :: "jsval \<Rightarrow> jsval" where
  "blank_memory a =
     (case key a of
        Num q \<Rightarrow> (if q = of_int \<lfloor>q\<rfloor> \<and> 0 \<le> q \<and> q < 256 then Num 0 else Undefined)
      | _ \<Rightarrow> Undefined)"

text \<open>
  Modelled from the spec: the Loader collaborator, which pokes the bytes of a
  program into consecutive addresses, and the Driver collaborator, which
  constructs the engine on a memory, loads the program and starts the clock.
\<close>

fun load :: "rat \<Rightarrow> jsval list \<Rightarrow> cpu \<Rightarrow> cpu" where
  "load a [] s = s"
| "load a (b # bs) s = load (a + 1) bs (poke (Num a) b s)"

definition boot :: "(jsval \<Rightarrow> jsval) \<Rightarrow> jsval list \<Rightarrow> cpu" where
  "boot memory program = startClock (load 0 program (new_CPU memory))"

text \<open>\<open>LDI R0,5; LDI R1,0; DIV R0,R1; PRN R0\<close>\<close>

definition div_by_zero_program :: "jsval list" where
  "div_by_zero_program =
     [op_LDI, Num 0, Num 5, op_LDI, Num 1, Num 0, op_DIV, Num 0, Num 1, op_PRN, Num 0]"

text \<open>\<open>LDI R0,255; JMP R0\<close>: a jump to the last cell of the memory, which holds \<open>NOP\<close>.\<close>

definition runaway_program :: "jsval list" where
  "runaway_program = [op_LDI, Num 0, Num 255, op_JMP, Num 0]"

text \<open>\<open>CALL R7\<close>: a call through the stack pointer.\<close>

definition call_SP_program :: "jsval list" where
  "call_SP_program = [op_CALL, SP]"

text \<open>\<open>LDI R3,6; CALL R3; HLT; RET\<close>\<close>

definition call_program :: "jsval list" where
  "call_program = [op_LDI, Num 3, Num 6, op_CALL, Num 3, op_HLT, op_RET]"

text \<open>A byte that is no opcode.\<close>

definition invalid_program :: "jsval list" where
  "invalid_program = [Num 255]"

text \<open>\<open>JMP R7\<close>\<close>

definition jump_program :: "jsval list" where
  "jump_program = [op_JMP, Num 7]"

text \<open>\<open>NOT R7; PUSH R0; POP R0\<close>: a stack pointer that is no byte.\<close>

definition not_SP_program :: "jsval list" where
  "not_SP_program = [op_NOT, SP, op_PUSH, Num 0, op_POP, Num 0]"

text \<open>A fresh engine after \<open>LDI R0,a; LDI R1,b\<close>.\<close>

definition two_registers :: "jsval \<Rightarrow> jsval \<Rightarrow> cpu" where
  "two_registers a b = snd (LDI (Num 1) b (snd (LDI (Num 0) a (boot blank_memory []))))"

text \<open>
  The register file of the specification holds 8-bit unsigned values: the
  integers from 0 to 255.
\<close>

definition is_byte :: "jsval \<Rightarrow> bool" where
  "is_byte v =
     (case v of Num q \<Rightarrow> q = of_int \<lfloor>q\<rfloor> \<and> 0 \<le> q \<and> q \<le> 255 | _ \<Rightarrow> False)"

section \<open>Facts about the operators\<close>

lemmas opcode_defs =
  op_HLT_def op_LD_def op_LDI_def op_PRN_def op_ST_def op_NOP_def op_ADD_def
  op_SUB_def op_MUL_def op_DIV_def op_MOD_def op_INC_def op_DEC_def op_AND_def
  op_OR_def op_XOR_def op_NOT_def op_PUSH_def op_POP_def op_CALL_def op_RET_def
  op_CMP_def op_JMP_def op_JEQ_def op_JGT_def op_JLT_def op_JNE_def

lemmas handler_defs =
  HLT_def LD_def LDI_def PRN_def ST_def NOP_def ADD_def SUB_def MUL_def DIV_def
  MOD_def INC_def DEC_def AND_h_def OR_h_def XOR_h_def NOT_h_def PUSH_def POP_def
  CALL_def RET_def CMP_def JMP_def JEQ_def JGT_def JLT_def JNE_def

lemma key_simps [simp]:
  "key (Num q) = Num q" "key NegZero = Num 0" "key Undefined = Undefined" "key NaN = NaN"
  "key PInf = PInf" "key NInf = NInf"
  by (simp_all add: key_def)

lemma key_eq_Num_iff: "key v = Num q \<longleftrightarrow> v = Num q \<or> (v = NegZero \<and> q = 0)"
  by (cases v) auto

lemma store_same [simp]: "store f k v k = v"
  by (simp add: store_def)

lemma store_other: "key x \<noteq> key k \<Longrightarrow> store f k v x = f x"
  by (simp add: store_def)

lemma trunc_of_int [simp]: "trunc (of_int k) = k"
  by (simp add: trunc_def)

lemma trunc_numeral [simp]:
  "trunc (numeral n) = numeral n" "trunc 0 = 0" "trunc 1 = 1"
  "trunc (- numeral n) = - numeral n"
  by (simp_all add: trunc_def)

lemma toInt32_signed_zero [simp]: "toInt32 (signed_zero p) = 0"
  by (simp add: signed_zero_def)

lemma and_255: "(k::int) AND 255 = k mod 256"
proof -
  have "k AND mask 8 = take_bit 8 k" by (simp add: take_bit_eq_mask)
  then show ?thesis by (simp add: take_bit_eq_mod mask_eq_exp_minus_1)
qed

lemma and_3: "(k::int) AND 3 = k mod 4"
proof -
  have "k AND mask 2 = take_bit 2 k" by (simp add: take_bit_eq_mask)
  then show ?thesis by (simp add: take_bit_eq_mod mask_eq_exp_minus_1)
qed

lemma signed_take_bit_31_mod_256: "signed_take_bit 31 (k::int) mod 256 = k mod 256"
  using take_bit_signed_take_bit[of 8 31 k] by (simp add: take_bit_eq_mod)

lemma signed_take_bit_31_id:
  "- (2 ^ 31) \<le> k \<Longrightarrow> k < 2 ^ 31 \<Longrightarrow> signed_take_bit 31 (k::int) = k"
  by (rule signed_take_bit_int_eq_self) simp_all

text \<open>Masking with 255 reduces the 32-bit integer of any value modulo 256.\<close>

lemma js_bitand_255: "js_bitand v (Num 255) = Num (of_int (toInt32 v mod 256))"
  by (simp add: js_bitand_def and_255)

lemma js_bitand_255_int: "js_bitand (Num (of_int k)) (Num 255) = Num (of_int (k mod 256))"
  by (simp add: js_bitand_255 signed_take_bit_31_mod_256)

lemma js_add_int: "js_add (Num (of_int a)) (Num (of_int b)) = Num (of_int (a + b))"
  by simp

lemma js_sub_int: "js_sub (Num (of_int a)) (Num (of_int b)) = Num (of_int (a - b))"
  by simp

text \<open>A zero product may be the negative zero; the mask does not see the sign.\<close>

lemma js_mul_int_masked:
  "js_bitand (js_mul (Num (of_int a)) (Num (of_int b))) (Num 255) = Num (of_int ((a * b) mod 256))"
proof (cases "a * b = 0")
  case True
  then have "(of_int a :: rat) * of_int b = 0" by (simp flip: of_int_mult)
  then show ?thesis using True by (simp add: js_bitand_255 del: mult_eq_0_iff)
next
  case False
  then have "(of_int a :: rat) * of_int b \<noteq> 0" by simp
  then have "js_mul (Num (of_int a)) (Num (of_int b)) = Num (of_int (a * b))"
    by (simp add: rounded_def flip: of_int_mult)
  then show ?thesis by (simp only: js_bitand_255_int)
qed

lemma js_add_1_int: "js_add (Num (of_int k)) (Num 1) = Num (of_int (k + 1))"
  by simp

lemma js_sub_1_int: "js_sub (Num (of_int k)) (Num 1) = Num (of_int (k - 1))"
  by simp

lemma reg_set_reg: "reg (set_reg r v s) r = v"
  by (simp add: set_reg_def)

lemma two_registers_reg:
  "reg (two_registers a b) (Num 0) = a" "reg (two_registers a b) (Num 1) = b"
  by (simp_all add: two_registers_def LDI_def set_reg_def store_def)

lemma is_byte_of_int: "is_byte (Num (of_int n)) = (0 \<le> n \<and> n \<le> 255)"
  by (simp add: is_byte_def)

lemma is_byteE: "is_byte v \<Longrightarrow> \<exists>n. v = Num (of_int n) \<and> 0 \<le> n \<and> n \<le> 255"
  by (cases v) (auto simp add: is_byte_def)

lemma is_byte_masked: "is_byte (js_bitand v (Num 255))"
  by (simp add: js_bitand_255 is_byte_of_int)

section \<open>The ALU: arithmetic\<close>

text \<open>
  Claim C7. For integer register values \<open>a\<close> and \<open>b\<close>, the ALU operations
  \<open>ADD\<close>, \<open>SUB\<close> and \<open>MUL\<close> write \<open>(a OP b) mod 256\<close> into the first operand
  register, \<open>INC\<close> and \<open>DEC\<close> write \<open>(a + 1) mod 256\<close> and \<open>(a - 1) mod 256\<close>;
  a register that was loaded with 255 is incremented to 0, and one that was
  loaded with 0 is decremented to 255.
\<close>

theorem alu_arithmetic_wraps:
  assumes A: "reg s regA = Num (of_int a)" and B: "reg s regB = Num (of_int b)"
  shows "reg (alu ''ADD'' regA regB s) regA = Num (of_int ((a + b) mod 256))
       \<and> reg (alu ''SUB'' regA regB s) regA = Num (of_int ((a - b) mod 256))
       \<and> reg (alu ''MUL'' regA regB s) regA = Num (of_int ((a * b) mod 256))
       \<and> reg (alu ''INC'' regA x s) regA = Num (of_int ((a + 1) mod 256))
       \<and> reg (alu ''DEC'' regA x s) regA = Num (of_int ((a - 1) mod 256))
       \<and> reg (alu ''INC'' regA x (snd (LDI regA (Num 255) s))) regA = Num 0
       \<and> reg (alu ''DEC'' regA x (snd (LDI regA (Num 0) s))) regA = Num 255"
proof -
  have general: "reg (alu ''ADD'' regA regB s) regA = Num (of_int ((a + b) mod 256))
       \<and> reg (alu ''SUB'' regA regB s) regA = Num (of_int ((a - b) mod 256))
       \<and> reg (alu ''MUL'' regA regB s) regA = Num (of_int ((a * b) mod 256))
       \<and> reg (alu ''INC'' regA x s) regA = Num (of_int ((a + 1) mod 256))
       \<and> reg (alu ''DEC'' regA x s) regA = Num (of_int ((a - 1) mod 256))"
    unfolding alu_def A B js_add_int js_sub_int js_mul_int_masked js_add_1_int js_sub_1_int
      js_bitand_255_int
    by (simp add: reg_set_reg)
  have "js_bitand (js_add (Num (of_int 255)) (Num 1)) (Num 255) = Num (of_int ((255 + 1) mod 256))"
    unfolding js_add_1_int js_bitand_255_int ..
  then have inc: "reg (alu ''INC'' regA x (snd (LDI regA (Num 255) s))) regA = Num 0"
    by (simp add: alu_def LDI_def set_reg_def)
  have "js_bitand (js_sub (Num (of_int 0)) (Num 1)) (Num 255) = Num (of_int ((0 - 1) mod 256))"
    unfolding js_sub_1_int js_bitand_255_int ..
  then have dec: "reg (alu ''DEC'' regA x (snd (LDI regA (Num 0) s))) regA = Num 255"
    by (simp add: alu_def LDI_def set_reg_def)
  from general inc dec show ?thesis by (simp only: simp_thms)
qed

theorem alu_arithmetic_wraps_witness:
  "reg (alu ''ADD'' (Num 0) (Num 1) (two_registers (Num 100) (Num 200))) (Num 0) = Num 44
 \<and> reg (alu ''SUB'' (Num 0) (Num 1) (two_registers (Num 100) (Num 200))) (Num 0) = Num 156
 \<and> reg (alu ''MUL'' (Num 0) (Num 1) (two_registers (Num 100) (Num 200))) (Num 0) = Num 32
 \<and> reg (alu ''INC'' (Num 0) Undefined (two_registers (Num 100) (Num 200))) (Num 0) = Num 101
 \<and> reg (alu ''DEC'' (Num 0) Undefined (two_registers (Num 100) (Num 200))) (Num 0) = Num 99"
proof -
  have A: "reg (two_registers (Num 100) (Num 200)) (Num 0) = Num (of_int 100)"
    and B: "reg (two_registers (Num 100) (Num 200)) (Num 1) = Num (of_int 200)"
    by (simp_all add: two_registers_reg)
  from alu_arithmetic_wraps[OF A B, of Undefined] show ?thesis by simp
qed

section \<open>The ALU: division and remainder\<close>

lemma pow2_powi: "pow2 e = 2 powi e"
  by (simp add: pow2_def power_int_def field_simps)

lemma pow2_pos [simp]: "0 < pow2 e"
  by (simp add: pow2_powi)

lemma pow2_mono: "a \<le> b \<Longrightarrow> pow2 a \<le> pow2 b"
  by (simp add: pow2_powi power_int_increasing)

lemma pow2_diff: "pow2 (a - b) = pow2 a / pow2 b"
  by (simp add: pow2_powi power_int_diff)

lemma pow2_52: "pow2 52 = 2 ^ 52"
  by (simp add: pow2_def)

text \<open>The exponent brackets a positive rational between two powers of two.\<close>

lemma floor_log2_bounds:
  assumes "0 < q"
  shows "pow2 (floor_log2 q) \<le> q" and "q < pow2 (floor_log2 q + 1)"
proof -
  show "pow2 (floor_log2 q) \<le> q"
  proof (cases "1 \<le> q")
    case True
    then have n: "0 < \<lfloor>q\<rfloor>" by simp
    from bitlen_bounds[OF n] have "2 ^ nat (bitlen \<lfloor>q\<rfloor> - 1) \<le> \<lfloor>q\<rfloor>" ..
    then have "(of_int (2 ^ nat (bitlen \<lfloor>q\<rfloor> - 1)) :: rat) \<le> of_int \<lfloor>q\<rfloor>"
      by (simp only: of_int_le_iff)
    also have "\<dots> \<le> q" by simp
    finally have "(2::rat) ^ nat (bitlen \<lfloor>q\<rfloor> - 1) \<le> q" by simp
    moreover have "1 \<le> bitlen \<lfloor>q\<rfloor>" using n by (auto simp: bitlen_alt_def)
    ultimately show ?thesis using True by (simp add: floor_log2_def pow2_def)
  next
    case False
    let ?N = "\<lceil>1 / q\<rceil>"
    let ?k = "bitlen (?N - 1)"
    from False assms have x: "1 < 1 / q" by simp
    then have N: "0 < ?N - 1" by (simp add: less_ceiling_iff)
    from bitlen_bounds[OF N] have "?N - 1 < 2 ^ nat ?k" ..
    then have "?N \<le> 2 ^ nat ?k" by simp
    then have "(of_int ?N :: rat) \<le> 2 ^ nat ?k" by simp
    with le_of_int_ceiling[of "1 / q"] have "1 / q \<le> 2 ^ nat ?k" by (rule order_trans)
    then have "1 / 2 ^ nat ?k \<le> q" using assms by (simp add: field_simps)
    moreover have "0 \<le> ?k" by (rule bitlen_nonneg)
    ultimately show ?thesis using False
      by (auto simp add: floor_log2_def pow2_def)
  qed
  show "q < pow2 (floor_log2 q + 1)"
  proof (cases "1 \<le> q")
    case True
    then have n: "0 < \<lfloor>q\<rfloor>" by simp
    from bitlen_bounds[OF n] have "\<lfloor>q\<rfloor> < 2 ^ nat (bitlen \<lfloor>q\<rfloor>)" ..
    then have "\<lfloor>q\<rfloor> + 1 \<le> 2 ^ nat (bitlen \<lfloor>q\<rfloor>)" by simp
    then have "(of_int (\<lfloor>q\<rfloor> + 1) :: rat) \<le> of_int (2 ^ nat (bitlen \<lfloor>q\<rfloor>))"
      by (simp only: of_int_le_iff)
    moreover have "q < of_int (\<lfloor>q\<rfloor> + 1)" by linarith
    ultimately have "q < 2 ^ nat (bitlen \<lfloor>q\<rfloor>)" by simp
    moreover have "0 \<le> bitlen \<lfloor>q\<rfloor>" by (rule bitlen_nonneg)
    ultimately show ?thesis using True by (simp add: floor_log2_def pow2_def)
  next
    case False
    let ?N = "\<lceil>1 / q\<rceil>"
    let ?k = "bitlen (?N - 1)"
    from False assms have x: "1 < 1 / q" by simp
    then have N: "0 < ?N - 1" by (simp add: less_ceiling_iff)
    from bitlen_bounds[OF N] have "2 ^ nat (?k - 1) \<le> ?N - 1" ..
    then have "(of_int (2 ^ nat (?k - 1)) :: rat) \<le> of_int (?N - 1)"
      by (simp only: of_int_le_iff)
    moreover have "of_int (?N - 1) < 1 / q" by linarith
    ultimately have "2 ^ nat (?k - 1) < 1 / q" by simp
    then have lt: "q < 1 / 2 ^ nat (?k - 1)" using assms by (simp add: field_simps)
    have k1: "1 \<le> ?k" using N by (auto simp: bitlen_alt_def)
    show ?thesis
    proof (cases "?k = 1")
      case True
      with lt False show ?thesis by (simp add: floor_log2_def pow2_def)
    next
      case F: False
      with k1 have "- ?k + 1 < 0" by simp
      moreover have "nat (- (- ?k + 1)) = nat (?k - 1)" by simp
      ultimately show ?thesis using lt False by (simp add: floor_log2_def pow2_def)
    qed
  qed
qed

lemma round_half_even_error: "\<bar>of_int (round_half_even x) - x\<bar> \<le> 1 / 2"
proof -
  have "of_int \<lfloor>x\<rfloor> \<le> x" "x < of_int \<lfloor>x\<rfloor> + 1" by linarith+
  then show ?thesis
    by (auto simp add: round_half_even_def Let_def abs_le_iff)
qed

lemma round_half_even_of_int: "round_half_even (of_int k) = k"
  by (simp add: round_half_even_def)

lemma ulp_pos [simp]: "0 < ulp m"
  by (simp add: ulp_def)

lemma ulp_nonzero [simp]: "ulp m \<noteq> 0"
  by (metis ulp_pos less_irrefl)

lemma ulp_nonneg [simp]: "0 \<le> ulp m"
  by (rule less_imp_le[OF ulp_pos])

text \<open>In the normal range the unit in the last place is at most \<open>m / 2 ^ 52\<close>.\<close>

lemma ulp_normal:
  assumes "pow2 (- 1022) \<le> m"
  shows "ulp m \<le> m / 2 ^ 52"
proof -
  have m: "0 < m" using assms pow2_pos[of "- 1022"] by linarith
  have "pow2 (- 1022) < pow2 (floor_log2 m + 1)"
    using assms floor_log2_bounds(2)[OF m] by linarith
  then have "- 1022 \<le> floor_log2 m"
    using pow2_mono[of "floor_log2 m + 1" "- 1022"] by (cases "- 1022 \<le> floor_log2 m") auto
  then have "ulp m = pow2 (floor_log2 m) / 2 ^ 52"
    by (simp add: ulp_def max_def pow2_diff pow2_52)
  with floor_log2_bounds(1)[OF m] show ?thesis
    by (simp add: divide_right_mono)
qed

text \<open>The rounded magnitude is within half a unit in the last place.\<close>

lemma rounded_error:
  "\<bar>of_int (round_half_even (m / ulp m)) * ulp m - m\<bar> \<le> ulp m / 2"
proof -
  have "of_int (round_half_even (m / ulp m)) * ulp m - m
      = (of_int (round_half_even (m / ulp m)) - m / ulp m) * ulp m"
    by (simp add: field_simps)
  then have "\<bar>of_int (round_half_even (m / ulp m)) * ulp m - m\<bar>
      = \<bar>of_int (round_half_even (m / ulp m)) - m / ulp m\<bar> * ulp m"
    by (simp add: abs_mult)
  also have "\<dots> \<le> (1 / 2) * ulp m"
    by (rule mult_right_mono[OF round_half_even_error]) simp
  finally show ?thesis by simp
qed

lemma binary64_Num_error:
  assumes "0 \<le> m" and "binary64 neg m = Num r"
  shows "\<bar>r - (if neg then - m else m)\<bar> \<le> ulp m / 2"
proof (cases "m = 0")
  case True
  with assms show ?thesis
    by (auto simp add: binary64_def signed_zero_def split: if_splits)
next
  case False
  let ?r = "of_int (round_half_even (m / ulp m)) * ulp m"
  note e = rounded_error[of m]
  from assms False have "r = 0 \<and> ?r = 0 \<or> r = (if neg then - ?r else ?r)"
    by (auto simp add: binary64_def Let_def signed_zero_def signed_inf_def split: if_splits)
  then show ?thesis
  proof
    assume "r = 0 \<and> ?r = 0"
    with e assms(1) show ?thesis by auto
  next
    assume "r = (if neg then - ?r else ?r)"
    with e show ?thesis by (auto simp add: abs_minus_commute)
  qed
qed

lemma binary64_exact:
  assumes "0 < m" and "m < pow2 1024" and "m / ulp m = of_int \<lfloor>m / ulp m\<rfloor>"
  shows "binary64 neg m = Num (if neg then - m else m)"
proof -
  have "round_half_even (m / ulp m) = \<lfloor>m / ulp m\<rfloor>"
    by (subst assms(3)) (simp only: round_half_even_of_int)
  then have "of_int (round_half_even (m / ulp m)) * ulp m = m"
    using assms(3) by simp
  with assms(1,2) show ?thesis
    by (simp add: binary64_def Let_def)
qed

lemma trunc_nonneg_div:
  "0 \<le> m \<Longrightarrow> 0 < n \<Longrightarrow> trunc (of_int m / of_int n) = m div n"
  by (simp add: trunc_def floor_divide_of_int_eq not_less[symmetric] divide_less_0_iff)

lemma signed_abs_quotient:
  "b \<noteq> 0 \<Longrightarrow> (if (a < 0) \<noteq> (b < 0) then - \<bar>a / b\<bar> else \<bar>a / b\<bar>) = (a / b :: rat)"
  by (cases "a < 0"; cases "b < 0")
     (auto simp add: abs_if divide_less_0_iff not_less dest: antisym)

text \<open>The quotient and the remainder of a finite dividend by a nonzero divisor.\<close>

lemma sign_bit_simps [simp]: "sign_bit (Num a) = (a < 0)" "sign_bit NegZero = True"
  by (simp_all add: sign_bit_def)

lemma binary64_zero: "binary64 neg 0 = signed_zero (\<not> neg)"
  by (simp add: binary64_def)

lemma js_div_finite:
  assumes "key v = Num a" and "b \<noteq> 0"
  shows "js_div v (Num b) = binary64 (sign_bit v \<noteq> (b < 0)) \<bar>a / b\<bar>"
proof -
  from assms(1) consider "v = Num a" | "v = NegZero" "a = 0"
    by (auto simp add: key_eq_Num_iff)
  then show ?thesis
  proof cases
    case 1
    with assms(2) show ?thesis by simp
  next
    case 2
    with assms(2) show ?thesis by (simp add: binary64_zero)
  qed
qed

lemma js_mod_finite:
  assumes "key v = Num a" and "b \<noteq> 0"
  shows "js_mod v (Num b) =
     (if a - b * of_int (trunc (a / b)) = 0 then signed_zero (\<not> sign_bit v)
      else Num (a - b * of_int (trunc (a / b))))"
proof -
  from assms(1) consider "v = Num a" | "v = NegZero" "a = 0"
    by (auto simp add: key_eq_Num_iff)
  then show ?thesis
  proof cases
    case 1
    with assms(2) show ?thesis by (simp add: not_less)
  next
    case 2
    with assms(2) show ?thesis by (simp add: signed_zero_def)
  qed
qed




section \<open>The ALU: bitwise complement\<close>

text \<open>
  Claim C9, as the specification states it, says that \<open>NOT\<close> is the only ALU
  operation whose result is not masked to 8 bits. \<open>DIV\<close> is another one: with 5
  and 2 in the registers it stores 5/2, which is no byte.
\<close>

theorem alu_DIV_result_no_byte_counterexample:
  "\<not> is_byte (reg (alu ''DIV'' (Num 0) (Num 1) (two_registers (Num 5) (Num 2))) (Num 0))"
  by code_simp

text \<open>
  Claim C9, amended. For every register value \<open>v\<close> from 0 to 255, the ALU
  operation \<open>NOT\<close> writes the bitwise complement \<open>- v - 1\<close> of the 32-bit integer
  into the register, with no mask, so the stored value is negative and no 8-bit
  byte; this is unlike \<open>ADD\<close>, \<open>SUB\<close>, \<open>MUL\<close>, \<open>INC\<close> and \<open>DEC\<close>, whose result is
  a byte whatever the operands are.
\<close>

theorem alu_NOT_unmasked:
  assumes R: "reg s r = Num (of_int v)" and lo: "0 \<le> v" and hi: "v \<le> 255"
  shows "reg (alu ''NOT'' r x s) r = Num (of_int (- v - 1))
       \<and> \<not> is_byte (reg (alu ''NOT'' r x s) r)
       \<and> is_byte (reg (alu ''ADD'' r x s) r)
       \<and> is_byte (reg (alu ''SUB'' r x s) r)
       \<and> is_byte (reg (alu ''MUL'' r x s) r)
       \<and> is_byte (reg (alu ''INC'' r x s) r)
       \<and> is_byte (reg (alu ''DEC'' r x s) r)"
proof -
  have "signed_take_bit 31 v = v"
    using lo hi by (intro signed_take_bit_31_id) simp_all
  then have n: "js_bitnot (Num (of_int v)) = Num (of_int (- v - 1))"
    by (simp add: js_bitnot_def not_int_def)
  have nb: "\<not> is_byte (Num (of_int (- v - 1)))"
    using lo by (simp only: is_byte_of_int) simp
  show ?thesis
    unfolding alu_def using R n nb
    by (simp add: reg_set_reg is_byte_masked del: of_int_diff of_int_minus)
qed

theorem alu_NOT_unmasked_witness:
  "reg (alu ''NOT'' (Num 0) Undefined (two_registers (Num 5) (Num 0))) (Num 0) = Num (- 6)
 \<and> \<not> is_byte (reg (alu ''NOT'' (Num 0) Undefined (two_registers (Num 5) (Num 0))) (Num 0))"
proof -
  have A: "reg (two_registers (Num 5) (Num 0)) (Num 0) = Num (of_int 5)"
    by (simp add: two_registers_reg)
  have lo: "(0::int) \<le> 5" and hi: "(5::int) \<le> 255" by simp_all
  note c = alu_NOT_unmasked[OF A lo hi, of Undefined]
  have e: "reg (alu ''NOT'' (Num 0) Undefined (two_registers (Num 5) (Num 0))) (Num 0) = Num (- 6)"
    using c[THEN conjunct1] by simp
  have n: "\<not> is_byte (reg (alu ''NOT'' (Num 0) Undefined (two_registers (Num 5) (Num 0))) (Num 0))"
    by (rule c[THEN conjunct2, THEN conjunct1])
  from e n show ?thesis by (simp only: simp_thms)
qed

section \<open>The ALU: comparison\<close>

lemma shl_flags:
  "js_shl (Num 1) FL_EQ = Num 1" "js_shl (Num 1) FL_GT = Num 2" "js_shl (Num 1) FL_LT = Num 4"
  by (simp_all add: js_shl_def FL_EQ_def FL_GT_def FL_LT_def)

text \<open>Setting one flag writes its bit and keeps the other two.\<close>

lemma bit_toInt32_setFlag:
  "bit (toInt32 (FL (setFlag FL_EQ v s))) 0 = v"
  "bit (toInt32 (FL (setFlag FL_EQ v s))) (Suc 0) = bit (toInt32 (FL s)) (Suc 0)"
  "bit (toInt32 (FL (setFlag FL_EQ v s))) 2 = bit (toInt32 (FL s)) 2"
  "bit (toInt32 (FL (setFlag FL_GT v s))) 0 = bit (toInt32 (FL s)) 0"
  "bit (toInt32 (FL (setFlag FL_GT v s))) (Suc 0) = v"
  "bit (toInt32 (FL (setFlag FL_GT v s))) 2 = bit (toInt32 (FL s)) 2"
  "bit (toInt32 (FL (setFlag FL_LT v s))) 0 = bit (toInt32 (FL s)) 0"
  "bit (toInt32 (FL (setFlag FL_LT v s))) (Suc 0) = bit (toInt32 (FL s)) (Suc 0)"
  "bit (toInt32 (FL (setFlag FL_LT v s))) 2 = v"
  by (simp_all add: setFlag_def shl_flags js_bitor_def js_bitand_def js_bitnot_def bit_simps)

lemma flag_bit_int:
  "k < 31 \<Longrightarrow> drop_bit k (signed_take_bit 31 ((x::int) AND 2 ^ k)) = of_bool (bit x k)"
  by (rule bit_eqI) (auto simp add: bit_simps)

lemma and_bit_int:
  "signed_take_bit 31 ((x::int) AND 1) = of_bool (bit x 0)"
  "drop_bit (Suc 0) (signed_take_bit 31 ((x::int) AND 2)) = of_bool (bit x (Suc 0))"
  "drop_bit 2 (signed_take_bit 31 ((x::int) AND 4)) = of_bool (bit x 2)"
  using flag_bit_int[of 0 x] flag_bit_int[of 1 x] flag_bit_int[of 2 x] by simp_all

text \<open>\<open>getFlag\<close> reads one bit of the flags register.\<close>

lemma getFlag_bit:
  "getFlag FL_EQ s = Num (of_bool (bit (toInt32 (FL s)) 0))"
  "getFlag FL_GT s = Num (of_bool (bit (toInt32 (FL s)) (Suc 0)))"
  "getFlag FL_LT s = Num (of_bool (bit (toInt32 (FL s)) 2))"
  unfolding getFlag_def shl_flags js_bitand_def js_shr_def
  by (simp_all add: FL_EQ_def FL_GT_def FL_LT_def and_bit_int del: of_int_of_bool)

lemma js_truthy_of_bool: "js_truthy (Num (of_bool b)) = b"
  by (simp add: js_truthy_def)

lemma setFlag_keeps:
  "reg (setFlag f v s) = reg s" "ram (setFlag f v s) = ram s" "PC (setFlag f v s) = PC s"
  "IR (setFlag f v s) = IR s" "clock (setFlag f v s) = clock s"
  "console (setFlag f v s) = console s"
  by (simp_all add: setFlag_def)

text \<open>
  Claim C8. For finite register values \<open>a\<close> and \<open>b\<close>, after \<open>CMP\<close> the flag
  \<open>EQUAL\<close> is set exactly when \<open>a = b\<close>, \<open>GREATER-THAN\<close> exactly when \<open>a > b\<close> and
  \<open>LESS-THAN\<close> exactly when \<open>a < b\<close>, so exactly one of the three is set; no
  register changes, and the state differs from the one before in the flags
  register only.
\<close>

theorem alu_CMP_flags:
  assumes A: "reg s regA = Num a" and B: "reg s regB = Num b"
  defines "s' \<equiv> alu ''CMP'' regA regB s"
  shows "js_truthy (getFlag FL_EQ s') = (a = b)
       \<and> js_truthy (getFlag FL_GT s') = (a > b)
       \<and> js_truthy (getFlag FL_LT s') = (a < b)
       \<and> (js_truthy (getFlag FL_EQ s') \<and> \<not> js_truthy (getFlag FL_GT s')
              \<and> \<not> js_truthy (getFlag FL_LT s')
          \<or> \<not> js_truthy (getFlag FL_EQ s') \<and> js_truthy (getFlag FL_GT s')
              \<and> \<not> js_truthy (getFlag FL_LT s')
          \<or> \<not> js_truthy (getFlag FL_EQ s') \<and> \<not> js_truthy (getFlag FL_GT s')
              \<and> js_truthy (getFlag FL_LT s'))
       \<and> reg s' = reg s
       \<and> s' = s\<lparr>FL := FL s'\<rparr>"
proof -
  have flags: "js_truthy (getFlag FL_EQ s') = (a = b)"
       "js_truthy (getFlag FL_GT s') = (a > b)"
       "js_truthy (getFlag FL_LT s') = (a < b)"
    unfolding s'_def alu_def using A B
    by (simp_all add: Let_def getFlag_bit js_truthy_of_bool bit_toInt32_setFlag setFlag_keeps
        js_strict_eq_def js_gt_def)
  have same: "reg s' = reg s" "s' = s\<lparr>FL := FL s'\<rparr>"
    unfolding s'_def alu_def by (simp_all add: Let_def setFlag_def)
  from flags same show ?thesis by (simp only:) auto
qed

theorem alu_CMP_flags_witness:
  "js_truthy (getFlag FL_LT (alu ''CMP'' (Num 0) (Num 1) (two_registers (Num 3) (Num 7))))
 \<and> \<not> js_truthy (getFlag FL_EQ (alu ''CMP'' (Num 0) (Num 1) (two_registers (Num 3) (Num 7))))
 \<and> \<not> js_truthy (getFlag FL_GT (alu ''CMP'' (Num 0) (Num 1) (two_registers (Num 3) (Num 7))))
 \<and> reg (alu ''CMP'' (Num 0) (Num 1) (two_registers (Num 3) (Num 7))) (Num 0) = Num 3"
proof -
  have A: "reg (two_registers (Num 3) (Num 7)) (Num 0) = Num 3"
    and B: "reg (two_registers (Num 3) (Num 7)) (Num 1) = Num 7"
    by (simp_all add: two_registers_reg)
  from alu_CMP_flags[OF A B] show ?thesis by (simp add: two_registers_reg)
qed

section \<open>The stack\<close>

text \<open>Decrementing and then incrementing a byte gives the byte back, also at 0.\<close>

lemma key_eq_SP: "key SP = key r \<longleftrightarrow> r = SP" "key r = key SP \<longleftrightarrow> r = SP"
  by (cases r; auto simp add: SP_def)+

lemma inc_dec_byte:
  assumes "is_byte v"
  shows "js_bitand (js_add (js_bitand (js_sub v (Num 1)) (Num 255)) (Num 1)) (Num 255) = v"
proof -
  from assms obtain n where v: "v = Num (of_int n)" and n: "0 \<le> n" "n \<le> 255"
    using is_byteE by blast
  have "((n - 1) mod 256 + 1) mod 256 = n" using n by (simp add: mod_add_left_eq)
  then show ?thesis
    unfolding v js_sub_1_int js_bitand_255_int js_add_1_int by (simp only:)
qed




section \<open>The cycle\<close>

text \<open>No handler writes the program counter or the instruction register.\<close>

lemma alu_PC_IR: "PC (alu opn x y s) = PC s" "IR (alu opn x y s) = IR s"
  by (simp_all add: alu_def set_reg_def setFlag_def Let_def)

lemma push_PC_IR: "PC (push v s) = PC s" "IR (push v s) = IR s"
  by (simp_all add: push_def Let_def ram_write_def alu_PC_IR)

lemma pop_PC_IR: "PC (snd (pop s)) = PC s" "IR (snd (pop s)) = IR s"
  by (simp_all add: pop_def Let_def alu_PC_IR)

lemma branchTable_cases:
  assumes "branchTable k = Some h"
  shows "h \<in> {HLT, LD, LDI, PRN, ST, NOP, ADD, SUB, MUL, DIV, MOD, INC, DEC, AND_h, OR_h,
              XOR_h, NOT_h, PUSH, POP, CALL, RET, CMP, JMP, JEQ, JGT, JLT, JNE}"
  using assms unfolding branchTable_def by (auto simp add: store_def split: if_splits)

lemma handler_PC_IR:
  assumes "branchTable k = Some h"
  shows "PC (snd (h a b s)) = PC s \<and> IR (snd (h a b s)) = IR s"
  using branchTable_cases[OF assms]
  by (auto simp add: handler_defs alu_PC_IR push_PC_IR pop_PC_IR stopClock_def set_reg_def
      console_log_def ram_write_def split_beta Let_def)

lemma IR_tick: "IR (tick s) = ram s (PC s)"
proof (cases "branchTable (ram s (PC s))")
  case None
  then show ?thesis by (simp add: tick_def ram_read_def stopClock_def console_log_def)
next
  case (Some h)
  from handler_PC_IR[OF Some] Some show ?thesis
    by (simp add: tick_def ram_read_def split_beta Let_def)
qed

text \<open>The program counter after a cycle that found a handler.\<close>

lemma PC_tick:
  assumes H: "branchTable (ram s (PC s)) = Some h"
  defines "res \<equiv> h (ram s (js_add (PC s) (Num 1))) (ram s (js_add (PC s) (Num 2)))
                    (s\<lparr>IR := ram s (PC s)\<rparr>)"
  shows "PC (tick s) =
      (if fst res \<noteq> Undefined then fst res
       else js_add (PC s) (js_add (operandCount (ram s (PC s))) (Num 1)))"
proof -
  have "PC (snd res) = PC s" "IR (snd res) = ram s (PC s)"
    using handler_PC_IR[OF H] by (simp_all add: res_def)
  then show ?thesis
    using H by (simp add: tick_def ram_read_def res_def split_beta Let_def)
qed

text \<open>Every key of the branch table is a byte.\<close>

lemma branchTable_key:
  assumes "branchTable k = Some h"
  shows "\<exists>n. key k = Num (of_int n) \<and> 0 \<le> n \<and> n < 256"
proof -
  from assms have "key k \<in> {op_HLT, op_LD, op_LDI, op_PRN, op_ST, op_NOP, op_ADD, op_SUB,
      op_MUL, op_DIV, op_MOD, op_INC, op_DEC, op_AND, op_OR, op_XOR, op_NOT, op_PUSH, op_POP,
      op_CALL, op_RET, op_CMP, op_JMP, op_JEQ, op_JGT, op_JLT, op_JNE}"
    unfolding branchTable_def by (auto simp add: store_def opcode_defs split: if_splits)
  then consider "key k = Num (of_int 1)" | "key k = Num (of_int 152)" | "key k = Num (of_int 153)"
    | "key k = Num (of_int 67)" | "key k = Num (of_int 154)" | "key k = Num (of_int 0)"
    | "key k = Num (of_int 168)" | "key k = Num (of_int 169)" | "key k = Num (of_int 170)"
    | "key k = Num (of_int 171)" | "key k = Num (of_int 172)" | "key k = Num (of_int 120)"
    | "key k = Num (of_int 121)" | "key k = Num (of_int 179)" | "key k = Num (of_int 177)"
    | "key k = Num (of_int 178)" | "key k = Num (of_int 112)" | "key k = Num (of_int 77)"
    | "key k = Num (of_int 76)" | "key k = Num (of_int 72)" | "key k = Num (of_int 9)"
    | "key k = Num (of_int 160)" | "key k = Num (of_int 80)" | "key k = Num (of_int 81)"
    | "key k = Num (of_int 84)" | "key k = Num (of_int 83)" | "key k = Num (of_int 82)"
    by (auto simp add: opcode_defs)
  then show ?thesis
    by cases (rule exI, rule conjI, assumption, simp)+
qed

text \<open>The operand count does not tell the two zeros apart.\<close>

lemma operandCount_key: "operandCount (key v) = operandCount v"
  by (cases v) (simp_all add: operandCount_def js_shr_def js_bitand_def)

text \<open>The operand count of an opcode byte is the number made of its top two bits.\<close>

lemma operandCount_byte:
  assumes "0 \<le> n" "n < 256"
  shows "operandCount (Num (of_int n)) = Num (of_int (n div 64))"
proof -
  have "signed_take_bit 31 n = n" using assms by (intro signed_take_bit_31_id) simp_all
  moreover have "n div 64 < 4" "0 \<le> n div 64" using assms by simp_all
  then have "signed_take_bit 31 (n div 64) = n div 64" "(n div 64) mod 4 = n div 64"
    by (simp_all add: signed_take_bit_31_id)
  ultimately show ?thesis
    by (simp add: operandCount_def js_bitand_def js_shr_def drop_bit_eq_div and_3)
qed

lemma boot_opcode:
  "ram (boot blank_memory jump_program) (PC (boot blank_memory jump_program)) = op_JMP"
  "ram (boot blank_memory div_by_zero_program) (PC (boot blank_memory div_by_zero_program)) = op_LDI"
  "ram (boot blank_memory invalid_program) (PC (boot blank_memory invalid_program)) = Num 255"
  by code_simp+

text \<open>
  Claim C5. In a cycle that finds a handler, when the handler returns an address
  the program counter becomes that address; when it returns nothing the program
  counter advances by \<open>1 + operandCount\<close>, where the operand count is
  \<open>(opcode >> 6) & 3\<close> of the byte fetched at the start of the cycle.
\<close>

theorem tick_advance:
  assumes H: "branchTable (ram s (PC s)) = Some h"
  defines "res \<equiv> h (ram s (js_add (PC s) (Num 1))) (ram s (js_add (PC s) (Num 2)))
                    (s\<lparr>IR := ram s (PC s)\<rparr>)"
  shows "(fst res \<noteq> Undefined \<longrightarrow> PC (tick s) = fst res)
       \<and> (fst res = Undefined \<longrightarrow>
            PC (tick s) = js_add (PC s) (js_add (operandCount (ram s (PC s))) (Num 1)))
       \<and> operandCount (ram s (PC s)) = js_bitand (js_shr (ram s (PC s)) (Num 6)) (Num 3)"
  using PC_tick[OF H] by (simp add: res_def operandCount_def)

theorem tick_advance_witness:
  "PC (tick (boot blank_memory jump_program)) = Num 244
 \<and> PC (tick (boot blank_memory div_by_zero_program)) = Num 3"
proof -
  have j: "branchTable (ram (boot blank_memory jump_program)
                            (PC (boot blank_memory jump_program))) = Some JMP"
    by (simp add: boot_opcode branchTable_def store_def opcode_defs)
  have jr: "fst (JMP (ram (boot blank_memory jump_program)
                          (js_add (PC (boot blank_memory jump_program)) (Num 1)))
                     (ram (boot blank_memory jump_program)
                          (js_add (PC (boot blank_memory jump_program)) (Num 2)))
                     ((boot blank_memory jump_program)
                        \<lparr>IR := ram (boot blank_memory jump_program)
                                  (PC (boot blank_memory jump_program))\<rparr>))
            = Num 244"
    by code_simp
  have l: "branchTable (ram (boot blank_memory div_by_zero_program)
                            (PC (boot blank_memory div_by_zero_program))) = Some LDI"
    by (simp add: boot_opcode branchTable_def store_def opcode_defs)
  have lr: "fst (LDI (ram (boot blank_memory div_by_zero_program)
                          (js_add (PC (boot blank_memory div_by_zero_program)) (Num 1)))
                     (ram (boot blank_memory div_by_zero_program)
                          (js_add (PC (boot blank_memory div_by_zero_program)) (Num 2)))
                     ((boot blank_memory div_by_zero_program)
                        \<lparr>IR := ram (boot blank_memory div_by_zero_program)
                                  (PC (boot blank_memory div_by_zero_program))\<rparr>))
            = Undefined"
    by (simp add: LDI_def)
  have cnt: "js_add (PC (boot blank_memory div_by_zero_program))
               (js_add (operandCount (ram (boot blank_memory div_by_zero_program)
                                          (PC (boot blank_memory div_by_zero_program))))
                       (Num 1))
             = Num 3"
    by code_simp
  from tick_advance[OF j] jr have 1: "PC (tick (boot blank_memory jump_program)) = Num 244"
    by simp
  from tick_advance[OF l] lr cnt
  have 2: "PC (tick (boot blank_memory div_by_zero_program)) = Num 3"
    by simp
  from 1 2 show ?thesis by (simp only: simp_thms)
qed

text \<open>
  Claim C6. When the byte fetched has no entry in the branch table, the cycle
  logs the invalid instruction and stops the clock; the program counter, the
  registers and the memory keep their values, and no handler runs: the state
  changes in the instruction register, the clock and the console only.
\<close>

theorem tick_invalid_opcode:
  assumes "branchTable (ram s (PC s)) = None"
  shows "tick s = s\<lparr>IR := ram s (PC s), clock := False,
                     console := console s @ [InvalidInstruction (ram s (PC s))]\<rparr>
       \<and> halted (tick s) \<and> PC (tick s) = PC s \<and> reg (tick s) = reg s
       \<and> ram (tick s) = ram s"
  using assms by (simp add: tick_def ram_read_def stopClock_def console_log_def halted_def)

theorem tick_invalid_opcode_witness:
  "halted (tick (boot blank_memory invalid_program))
 \<and> PC (tick (boot blank_memory invalid_program)) = Num 0
 \<and> console (tick (boot blank_memory invalid_program)) = [InvalidInstruction (Num 255)]"
proof -
  have n: "branchTable (ram (boot blank_memory invalid_program)
                            (PC (boot blank_memory invalid_program))) = None"
    by (simp add: boot_opcode branchTable_def store_def opcode_defs)
  have p: "PC (boot blank_memory invalid_program) = Num 0"
    "console (boot blank_memory invalid_program) = []"
    by code_simp+
  from tick_invalid_opcode[OF n] boot_opcode(3) p show ?thesis by (simp add: halted_def)
qed

section \<open>Default advance beyond the memory\<close>

text \<open>
  Claim C10. On the default path the new program counter is the old one plus 1
  plus the operand count, the number made of the top two bits of the opcode
  byte, as a sum of numbers with no reduction modulo 256. The program
  \<open>LDI R0,255; JMP R0\<close> reaches the \<open>NOP\<close> in cell 255 and leaves it with the
  program counter at 256, with the clock still running; the next cycle then
  fetches cell 256, whatever it holds.
\<close>

theorem default_advance_unbounded:
  "(branchTable (ram s (PC s)) = Some h
      \<and> fst (h (ram s (js_add (PC s) (Num 1))) (ram s (js_add (PC s) (Num 2)))
                (s\<lparr>IR := ram s (PC s)\<rparr>)) = Undefined
      \<and> PC s = Num p
    \<longrightarrow> (\<exists>n. key (ram s (PC s)) = Num (of_int n) \<and> 0 \<le> n \<and> n < 256
             \<and> PC (tick s) = Num (p + of_int (n div 64) + 1)))
 \<and> (\<forall>v. PC (run 3 (boot (blank_memory(Num 256 := v)) runaway_program)) = Num 256
        \<and> clock (run 3 (boot (blank_memory(Num 256 := v)) runaway_program))
        \<and> IR (tick (run 3 (boot (blank_memory(Num 256 := v)) runaway_program))) = v)"
proof (intro conjI impI allI)
  assume H: "branchTable (ram s (PC s)) = Some h
      \<and> fst (h (ram s (js_add (PC s) (Num 1))) (ram s (js_add (PC s) (Num 2)))
                (s\<lparr>IR := ram s (PC s)\<rparr>)) = Undefined
      \<and> PC s = Num p"
  then have bt: "branchTable (ram s (PC s)) = Some h" and p: "PC s = Num p" by blast+
  from branchTable_key[OF bt] obtain n where
    n: "key (ram s (PC s)) = Num (of_int n)" "0 \<le> n" "n < 256" by blast
  from H have und: "fst (h (ram s (js_add (PC s) (Num 1))) (ram s (js_add (PC s) (Num 2)))
                (s\<lparr>IR := ram s (PC s)\<rparr>)) = Undefined" by blast
  have "PC (tick s) = js_add (PC s) (js_add (operandCount (ram s (PC s))) (Num 1))"
    unfolding PC_tick[OF bt] und by simp
  moreover have "operandCount (ram s (PC s)) = Num (of_int (n div 64))"
    using operandCount_key[of "ram s (PC s)"] by (simp only: n(1) operandCount_byte[OF n(2,3)])
  ultimately have "PC (tick s) = Num (p + of_int (n div 64) + 1)"
    by (simp add: p)
  with n show "\<exists>n. key (ram s (PC s)) = Num (of_int n) \<and> 0 \<le> n \<and> n < 256
             \<and> PC (tick s) = Num (p + of_int (n div 64) + 1)" by blast
next
  fix v
  show "PC (run 3 (boot (blank_memory(Num 256 := v)) runaway_program)) = Num 256"
    by code_simp
  show "clock (run 3 (boot (blank_memory(Num 256 := v)) runaway_program))"
    by code_simp
  have "ram (run 3 (boot (blank_memory(Num 256 := v)) runaway_program)) (Num 256) = v"
    "PC (run 3 (boot (blank_memory(Num 256 := v)) runaway_program)) = Num 256"
    by code_simp+
  then show "IR (tick (run 3 (boot (blank_memory(Num 256 := v)) runaway_program))) = v"
    by (simp add: IR_tick)
qed

theorem default_advance_unbounded_witness:
  "PC (tick (tick (boot blank_memory runaway_program))) = Num 255
 \<and> PC (tick (tick (tick (boot blank_memory runaway_program)))) = Num 256"
proof -
  define s where "s = tick (tick (boot blank_memory runaway_program))"
  have o: "ram s (PC s) = op_NOP" unfolding s_def by code_simp
  have bt: "branchTable (ram s (PC s)) = Some NOP"
    by (simp add: o branchTable_def store_def opcode_defs)
  have u: "fst (NOP (ram s (js_add (PC s) (Num 1))) (ram s (js_add (PC s) (Num 2)))
                    (s\<lparr>IR := ram s (PC s)\<rparr>)) = Undefined"
    by (simp add: NOP_def)
  have p: "PC s = Num 255" unfolding s_def by code_simp
  have z: "ram s (PC s) = Num (of_int 0)" by (simp add: o op_NOP_def)
  from default_advance_unbounded[of s NOP 255, THEN conjunct1, rule_format,
      OF conjI[OF bt conjI[OF u p]]]
  obtain n where "key (ram s (PC s)) = Num (of_int n)"
    and "PC (tick s) = Num (255 + of_int (n div 64) + 1)" by blast
  with z have "PC (tick s) = Num 256" by simp
  with p show ?thesis by (simp add: s_def)
qed

section \<open>Subroutines\<close>

lemma branchTable_CALL: "branchTable op_CALL = Some CALL"
  by (simp add: branchTable_def store_def opcode_defs)

lemma branchTable_RET: "branchTable op_RET = Some RET"
  by (simp add: branchTable_def store_def opcode_defs)

text \<open>
  Claim C4, as the specification states it, speaks of every register. With
  \<open>CALL R7\<close> on a fresh engine the register holds 244 (0xF4) before the
  instruction, and the cycle leaves the program counter at 243, not at 244:
  \<open>CALL\<close> reads the target after the push has decremented the stack pointer.
\<close>

theorem CALL_SP_counterexample:
  "reg (boot blank_memory call_SP_program) SP = Num 244
 \<and> PC (tick (boot blank_memory call_SP_program)) = Num 243"
  by code_simp

text \<open>
  Claim C4, amended. For every call-site address \<open>c\<close> and every register other
  than the stack pointer that holds a target address, the cycle that executes
  \<open>CALL\<close> at \<open>c\<close> decrements the stack pointer, stores the return address
  \<open>c + 2\<close> at the new top of the stack and sets the program counter to the
  address held in the register; a later \<open>RET\<close>, run from any state whose stack
  pointer and top of stack are those the \<open>CALL\<close> left, sets the program counter
  to \<open>c + 2\<close>.
\<close>

theorem CALL_RET_roundtrip:
  assumes pc: "PC s = Num c" and opc: "ram s (Num c) = op_CALL"
      and opnd: "ram s (Num (c + 1)) = r" and r: "r \<noteq> SP" and tgt: "reg s r \<noteq> Undefined"
  shows "PC (tick s) = reg s r
       \<and> reg (tick s) SP = js_bitand (js_sub (reg s SP) (Num 1)) (Num 255)
       \<and> ram (tick s) (reg (tick s) SP) = Num (c + 2)
       \<and> (\<forall>s2. reg s2 SP = reg (tick s) SP \<and> ram s2 (reg s2 SP) = Num (c + 2)
                \<and> ram s2 (PC s2) = op_RET
              \<longrightarrow> PC (tick s2) = Num (c + 2))"
proof -
  have call: "tick s = (let s1 = push (Num (c + 2)) (s\<lparr>IR := op_CALL\<rparr>) in s1\<lparr>PC := reg s r\<rparr>)"
    using pc opc opnd r tgt
    by (simp add: tick_def ram_read_def branchTable_CALL CALL_def Let_def push_def alu_def
        set_reg_def ram_write_def store_def key_eq_SP)
  have A: "PC (tick s) = reg s r"
    by (simp add: call Let_def)
  have B: "reg (tick s) SP = js_bitand (js_sub (reg s SP) (Num 1)) (Num 255)"
    by (simp add: call Let_def push_def alu_def set_reg_def ram_write_def)
  have C: "ram (tick s) (reg (tick s) SP) = Num (c + 2)"
    by (simp add: call Let_def push_def alu_def set_reg_def ram_write_def)
  have D: "PC (tick s2) = Num (c + 2)"
    if "ram s2 (reg s2 SP) = Num (c + 2)" "ram s2 (PC s2) = op_RET" for s2
    using that
    by (simp add: tick_def ram_read_def branchTable_RET RET_def pop_def Let_def)
  from A B C D show ?thesis by blast
qed

theorem CALL_RET_roundtrip_witness:
  "PC (tick (tick (boot blank_memory call_program))) = Num 6
 \<and> ram (tick (tick (boot blank_memory call_program))) (Num 243) = Num 5
 \<and> reg (tick (tick (boot blank_memory call_program))) SP = Num 243
 \<and> PC (tick (tick (tick (boot blank_memory call_program)))) = Num 5"
proof -
  define s where "s = tick (boot blank_memory call_program)"
  have pc: "PC s = Num 3" and opc: "ram s (Num 3) = op_CALL"
    and opnd: "ram s (Num (3 + 1)) = Num 3" and r: "Num 3 \<noteq> SP"
    and tgt: "reg s (Num 3) \<noteq> Undefined" and tv: "reg s (Num 3) = Num 6"
    and sp: "reg s SP = Num 244"
    unfolding s_def by code_simp+
  note c = CALL_RET_roundtrip[OF pc opc opnd r tgt]
  have 1: "PC (tick s) = Num 6"
    using c[THEN conjunct1] tv by simp
  have 2: "reg (tick s) SP = Num 243"
    using c[THEN conjunct2, THEN conjunct1] sp by (simp add: js_bitand_255)
  have 3: "ram (tick s) (Num 243) = Num 5"
    using c[THEN conjunct2, THEN conjunct2, THEN conjunct1] unfolding 2 by simp
  have ret: "ram (tick s) (PC (tick s)) = op_RET" unfolding s_def by code_simp
  have "reg (tick s) SP = reg (tick s) SP \<and> ram (tick s) (reg (tick s) SP) = Num (3 + 2)
          \<and> ram (tick s) (PC (tick s)) = op_RET"
    using 2 3 ret by simp
  with c[THEN conjunct2, THEN conjunct2, THEN conjunct2, rule_format, of "tick s"]
  have 4: "PC (tick (tick s)) = Num 5" by simp
  from 1 2 3 4 show ?thesis by (simp add: s_def)
qed

section \<open>Division by zero\<close>

text \<open>
  With a zero divisor the handlers \<open>DIV\<close> and \<open>MOD\<close> log the message and stop the
  clock, and then hand the operands to the ALU all the same: the first operand
  register receives the JavaScript quotient or remainder by zero.
\<close>

lemma DIV_MOD_zero_divisor:
  assumes "reg s regB = Num 0"
  shows "snd (DIV regA regB s) =
           alu ''DIV'' regA regB
             (s\<lparr>console := console s @ [Message ''regB should not be zero''], clock := False\<rparr>)"
    and "snd (MOD regA regB s) =
           alu ''MOD'' regA regB
             (s\<lparr>console := console s @ [Message ''regB should not be zero''], clock := False\<rparr>)"
    and "reg (snd (DIV regA regB s)) regA = js_div (reg s regA) (Num 0)"
    and "reg (snd (MOD regA regB s)) regA = NaN"
    and "halted (snd (DIV regA regB s))" and "halted (snd (MOD regA regB s))"
proof -
  show d: "snd (DIV regA regB s) =
           alu ''DIV'' regA regB
             (s\<lparr>console := console s @ [Message ''regB should not be zero''], clock := False\<rparr>)"
    using assms
    by (simp add: DIV_def HLT_def js_strict_eq_def console_log_def stopClock_def)
  show m: "snd (MOD regA regB s) =
           alu ''MOD'' regA regB
             (s\<lparr>console := console s @ [Message ''regB should not be zero''], clock := False\<rparr>)"
    using assms
    by (simp add: MOD_def HLT_def js_strict_eq_def console_log_def stopClock_def)
  show "reg (snd (DIV regA regB s)) regA = js_div (reg s regA) (Num 0)"
    unfolding d using assms by (simp add: alu_def set_reg_def)
  have "js_mod v (Num 0) = NaN" for v
    by (cases v) simp_all
  then show "reg (snd (MOD regA regB s)) regA = NaN"
    unfolding m using assms by (simp add: alu_def set_reg_def)
  show "halted (snd (DIV regA regB s))"
    unfolding d by (simp add: halted_def alu_def set_reg_def)
  show "halted (snd (MOD regA regB s))"
    unfolding m by (simp add: halted_def alu_def set_reg_def)
qed

text \<open>
  Claim C1. The program \<open>LDI R0,5; LDI R1,0; DIV R0,R1; PRN R0\<close> stops in its
  third cycle: the clock is off, the console holds the message of the handler
  and no line of \<open>PRN\<close>, and the program counter rests on \<open>PRN\<close>. The division
  was performed nevertheless: \<open>R0\<close> no longer holds 5 but positive infinity.
\<close>

theorem div_by_zero_program_divides:
  "halted (run 10 (boot blank_memory div_by_zero_program))
 \<and> console (run 10 (boot blank_memory div_by_zero_program))
      = [Message ''regB should not be zero'']
 \<and> PC (run 10 (boot blank_memory div_by_zero_program)) = Num 9
 \<and> ram (run 10 (boot blank_memory div_by_zero_program)) (Num 9) = op_PRN
 \<and> reg (run 10 (boot blank_memory div_by_zero_program)) (Num 0) = PInf"
  by code_simp

end
